theory Spec2Isabelle
  imports Main
begin

section \<open>Python strings and the built-in operations the engine uses\<close>

text \<open>
  A Python \<open>str\<close> is a sequence of Unicode code points, so a string is a list of
  natural numbers and \<open>length\<close> counts what Python's \<open>len\<close> counts. The names below
  are the code points of the letters that occur in \<open>make_medals.py\<close>.
\<close>

type_synonym cp = nat
type_synonym ustr = "cp list"

abbreviation SPACE :: cp where "SPACE \<equiv> 32"
abbreviation cyr_a :: cp where "cyr_a \<equiv> 1072"
abbreviation cyr_v :: cp where "cyr_v \<equiv> 1074"
abbreviation cyr_e :: cp where "cyr_e \<equiv> 1077"
abbreviation cyr_y :: cp where "cyr_y \<equiv> 1080"
abbreviation cyr_j :: cp where "cyr_j \<equiv> 1081"
abbreviation cyr_k :: cp where "cyr_k \<equiv> 1082"
abbreviation cyr_l :: cp where "cyr_l \<equiv> 1083"
abbreviation cyr_n :: cp where "cyr_n \<equiv> 1085"
abbreviation cyr_o :: cp where "cyr_o \<equiv> 1086"
abbreviation cyr_u :: cp where "cyr_u \<equiv> 1091"
abbreviation cyr_ch :: cp where "cyr_ch \<equiv> 1095"
abbreviation cyr_soft :: cp where "cyr_soft \<equiv> 1100"
abbreviation cyr_yu :: cp where "cyr_yu \<equiv> 1102"
abbreviation cyr_ya :: cp where "cyr_ya \<equiv> 1103"
abbreviation cyr_ye :: cp where "cyr_ye \<equiv> 1108"
abbreviation cyr_i :: cp where "cyr_i \<equiv> 1110"
abbreviation cyr_yi :: cp where "cyr_yi \<equiv> 1111"
abbreviation CYR_U :: cp where "CYR_U \<equiv> 1059"
abbreviation CYR_YU :: cp where "CYR_YU \<equiv> 1070"
abbreviation CYR_I :: cp where "CYR_I \<equiv> 1030"
abbreviation CYR_YI :: cp where "CYR_YI \<equiv> 1031"

datatype py_error = IndexError

text \<open>
  Case mapping and case tests of single code points, as the Unicode character database
  gives them for Basic Latin (U+0041..U+007A) and for Cyrillic (U+0400..U+045F and the
  pair U+0490/U+0491): the alphabets of the names the program processes. A code point
  outside these ranges is caseless here. White space is the full set of \<open>str.isspace\<close>.
\<close>

definition cp_lower :: "cp \<Rightarrow> cp" where
  "cp_lower c =
     (if 65 \<le> c \<and> c \<le> 90 then c + 32
      else if 1024 \<le> c \<and> c \<le> 1039 then c + 80
      else if 1040 \<le> c \<and> c \<le> 1071 then c + 32
      else if c = 1168 then 1169
      else c)"

definition cp_upper :: "cp \<Rightarrow> cp" where
  "cp_upper c =
     (if 97 \<le> c \<and> c \<le> 122 then c - 32
      else if 1072 \<le> c \<and> c \<le> 1103 then c - 32
      else if 1104 \<le> c \<and> c \<le> 1119 then c - 80
      else if c = 1169 then 1168
      else c)"

definition cp_islower :: "cp \<Rightarrow> bool" where
  "cp_islower c \<longleftrightarrow> (97 \<le> c \<and> c \<le> 122) \<or> (1072 \<le> c \<and> c \<le> 1119) \<or> c = 1169"


definition cp_isspace :: "cp \<Rightarrow> bool" where
  "cp_isspace c \<longleftrightarrow>
     (9 \<le> c \<and> c \<le> 13) \<or> (28 \<le> c \<and> c \<le> 32) \<or> c = 133 \<or> c = 160 \<or> c = 5760
     \<or> (8192 \<le> c \<and> c \<le> 8202) \<or> c = 8232 \<or> c = 8233 \<or> c = 8239 \<or> c = 8287
     \<or> c = 12288"

text \<open>\<open>s.lower()\<close>, \<open>s.upper()\<close>, \<open>s.capitalize()\<close>.\<close>

definition py_lower :: "ustr \<Rightarrow> ustr" where
  "py_lower s = map cp_lower s"

definition py_upper :: "ustr \<Rightarrow> ustr" where
  "py_upper s = map cp_upper s"

definition py_capitalize :: "ustr \<Rightarrow> ustr" where
  "py_capitalize s = (case s of [] \<Rightarrow> [] | c # cs \<Rightarrow> cp_upper c # map cp_lower cs)"

text \<open>\<open>s.endswith(suf)\<close>: the last \<open>len(suf)\<close> code points of \<open>s\<close> are \<open>suf\<close>.\<close>

definition py_endswith :: "ustr \<Rightarrow> ustr \<Rightarrow> bool" where
  "py_endswith s suf \<longleftrightarrow> length suf \<le> length s \<and> drop (length s - length suf) s = suf"

text \<open>\<open>s[-1]\<close> raises IndexError on the empty string; the slice \<open>s[:-1]\<close> never raises.\<close>

definition py_last :: "ustr \<Rightarrow> py_error + cp" where
  "py_last s = (if s = [] then Inl IndexError else Inr (last s))"

definition py_init :: "ustr \<Rightarrow> ustr" where
  "py_init s = butlast s"

text \<open>\<open>xs[i]\<close> for a non-negative index.\<close>

definition py_index :: "'a list \<Rightarrow> nat \<Rightarrow> py_error + 'a" where
  "py_index xs i = (if i < length xs then Inr (xs ! i) else Inl IndexError)"

text \<open>\<open>s.strip()\<close> removes leading and trailing white space.\<close>

definition py_strip :: "ustr \<Rightarrow> ustr" where
  "py_strip s = rev (dropWhile cp_isspace (rev (dropWhile cp_isspace s)))"

text \<open>
  \<open>s.split()\<close>: skip white space, take the run of other code points up to the next
  white space as one item, repeat until the string ends.
\<close>

function py_split :: "ustr \<Rightarrow> ustr list" where
  "py_split s =
     (let t = dropWhile cp_isspace s
      in if t = [] then []
         else takeWhile (\<lambda>c. \<not> cp_isspace c) t # py_split (dropWhile (\<lambda>c. \<not> cp_isspace c) t))"
  by pat_completeness auto
termination
proof (relation "measure length")
  show "wf (measure length)" by simp
next
  fix s t :: ustr
  assume t: "t = dropWhile cp_isspace s" and ne: "t \<noteq> []"
  have "length (dropWhile (\<lambda>c. \<not> cp_isspace c) t) < length t"
  proof (cases t)
    case Nil
    with ne show ?thesis by simp
  next
    case (Cons c cs)
    with t have "\<not> cp_isspace c"
      by (metis hd_dropWhile list.sel(1) ne)
    with Cons show ?thesis
      by (simp add: le_imp_less_Suc length_dropWhile_le)
  qed
  moreover have "length t \<le> length s"
    unfolding t by (rule length_dropWhile_le)
  ultimately show "(dropWhile (\<lambda>c. \<not> cp_isspace c) t, s) \<in> measure length"
    by simp
qed

declare py_split.simps [simp del]

text \<open>\<open>sep.join(xs)\<close>.\<close>

fun py_join :: "ustr \<Rightarrow> ustr list \<Rightarrow> ustr" where
  "py_join sep [] = []"
| "py_join sep [x] = x"
| "py_join sep (x # y # ys) = x @ sep @ py_join sep (y # ys)"

text \<open>An exception raised by one step is the result of the steps that follow it.\<close>

definition bind_e :: "py_error + 'a \<Rightarrow> ('a \<Rightarrow> py_error + 'b) \<Rightarrow> py_error + 'b" where
  "bind_e r f = (case r of Inl e \<Rightarrow> Inl e | Inr v \<Rightarrow> f v)"

text \<open>The truth value of an \<open>Optional[str]\<close>: \<open>None\<close> and the empty string are false.\<close>

fun truthy :: "ustr option \<Rightarrow> bool" where
  "truthy None = False"
| "truthy (Some s) = (s \<noteq> [])"

section \<open>The declension engine of \<open>make_medals.py\<close>\<close>

definition VOWELS :: "cp set" where
  "VOWELS = set [cyr_a, cyr_e, cyr_ye, cyr_y, cyr_i, cyr_yi, cyr_o, cyr_u, cyr_yu, cyr_ya]"

fun endswith_any :: "ustr \<Rightarrow> ustr list \<Rightarrow> ustr option" where
  "endswith_any s [] = None"
| "endswith_any s (suf # suffixes) =
     (if py_endswith s suf then Some suf else endswith_any s suffixes)"

definition is_vowel :: "cp \<Rightarrow> bool" where
  "is_vowel ch \<longleftrightarrow> cp_lower ch \<in> VOWELS"

definition dative_first_name :: "ustr \<Rightarrow> py_error + ustr" where
  "dative_first_name name =
     (let n = py_strip name; low = py_lower n
      in if n = [] then Inr n
         else if py_endswith low [cyr_a] then
           bind_e (py_last n) (\<lambda>c. Inr (py_init n @ (if cp_islower c then [cyr_i] else [CYR_I])))
         else if py_endswith low [cyr_ya] then
           bind_e (py_last n) (\<lambda>c. Inr (py_init n @ (if cp_islower c then [cyr_yi] else [CYR_YI])))
         else if py_endswith low [cyr_j] then
           bind_e (py_last n) (\<lambda>c. Inr (py_init n @ (if cp_islower c then [cyr_yu] else [CYR_YU])))
         else if py_endswith low [cyr_o] then
           (let base = py_init n; add = [cyr_o, cyr_v, cyr_i]
            in bind_e (py_last n) (\<lambda>c. Inr (base @ (if cp_islower c then add else py_capitalize add))))
         else
           bind_e (py_last low) (\<lambda>l.
             if \<not> is_vowel l \<or> py_endswith low [cyr_soft] then
               (let add = [cyr_o, cyr_v, cyr_i]
                in bind_e (py_last n) (\<lambda>c. Inr (n @ (if cp_islower c then add else py_capitalize add))))
             else Inr n))"

definition male_suf :: "ustr list" where
  "male_suf =
     [[cyr_o, cyr_v, cyr_y, cyr_ch],
      [cyr_j, cyr_o, cyr_v, cyr_y, cyr_ch],
      [cyr_e, cyr_v, cyr_y, cyr_ch],
      [cyr_l, cyr_soft, cyr_o, cyr_v, cyr_y, cyr_ch],
      [cyr_ye, cyr_v, cyr_y, cyr_ch]]"

definition fem_suf :: "ustr list" where
  "fem_suf =
     [[cyr_i, cyr_v, cyr_n, cyr_a],
      [cyr_yi, cyr_v, cyr_n, cyr_a],
      [cyr_e, cyr_v, cyr_n, cyr_a],
      [cyr_yi, cyr_v, cyr_n, cyr_a],
      [cyr_ye, cyr_v, cyr_n, cyr_a]]"

definition dative_patronymic :: "ustr \<Rightarrow> ustr option \<Rightarrow> py_error + ustr" where
  "dative_patronymic p gender =
     (if p = [] then Inr []
      else
        let low = py_lower p
        in if truthy (endswith_any low male_suf) then
             bind_e (py_last p) (\<lambda>c. Inr (p @ (if cp_islower c then [cyr_u] else [CYR_U])))
           else if truthy (endswith_any low fem_suf) then
             bind_e (py_last p) (\<lambda>c. Inr (py_init p @ (if cp_islower c then [cyr_i] else [CYR_I])))
           else if gender = Some [102] then
             (if py_endswith low [cyr_a] then
                bind_e (py_last p) (\<lambda>c. Inr (py_init p @ (if cp_islower c then [cyr_i] else [CYR_I])))
              else if py_endswith low [cyr_ya] then
                bind_e (py_last p) (\<lambda>c. Inr (py_init p @ (if cp_islower c then [cyr_yi] else [CYR_YI])))
              else Inr p)
           else
             bind_e (py_last low) (\<lambda>l.
               if \<not> is_vowel l \<or> py_endswith low [cyr_soft] \<or> py_endswith low [cyr_j] then
                 (let add = [cyr_u]
                  in bind_e (py_last p) (\<lambda>c. Inr (p @ (if cp_islower c then add else py_upper add))))
               else Inr p))"

definition dative_surname :: "ustr \<Rightarrow> ustr option \<Rightarrow> py_error + ustr" where
  "dative_surname surname gender =
     (let s = py_strip surname; low = py_lower s
      in if s = [] then Inr s
         else if py_endswith low [cyr_e, cyr_n, cyr_k, cyr_o] then
           bind_e (py_last s) (\<lambda>c. Inr (py_init s @ (if cp_islower c then [cyr_u] else [CYR_U])))
         else if py_endswith low [cyr_k, cyr_o] then
           bind_e (py_last s) (\<lambda>c. Inr (py_init s @ (if cp_islower c then [cyr_u] else [CYR_U])))
         else if py_endswith low [cyr_o] then
           bind_e (py_last s) (\<lambda>c. Inr (py_init s @ (if cp_islower c then [cyr_u] else [CYR_U])))
         else if py_endswith low [cyr_a] then
           bind_e (py_last s) (\<lambda>c. Inr (py_init s @ (if cp_islower c then [cyr_i] else [CYR_I])))
         else if py_endswith low [cyr_ya] then
           bind_e (py_last s) (\<lambda>c. Inr (py_init s @ (if cp_islower c then [cyr_yi] else [CYR_YI])))
         else if py_endswith low [cyr_j] then
           bind_e (py_last s) (\<lambda>c. Inr (py_init s @ (if cp_islower c then [cyr_yu] else [CYR_YU])))
         else
           bind_e (py_last low) (\<lambda>l.
             if \<not> is_vowel l \<or> py_endswith low [cyr_soft] then
               (let add = [cyr_u]
                in bind_e (py_last s) (\<lambda>c. Inr (s @ (if cp_islower c then add else py_upper add))))
             else Inr s))"

text \<open>The results \<open>"m"\<close> and \<open>"f"\<close> are the one-letter strings of code points 109 and 102.\<close>

definition guess_gender_from_patronymic :: "ustr option \<Rightarrow> ustr option" where
  "guess_gender_from_patronymic p =
     (if \<not> truthy p then None
      else
        let low = py_lower (the p)
        in if py_endswith low [cyr_o, cyr_v, cyr_y, cyr_ch]
              \<or> py_endswith low [cyr_j, cyr_o, cyr_v, cyr_y, cyr_ch]
              \<or> py_endswith low [cyr_e, cyr_v, cyr_y, cyr_ch]
              \<or> py_endswith low [cyr_l, cyr_soft, cyr_o, cyr_v, cyr_y, cyr_ch]
              \<or> py_endswith low [cyr_ye, cyr_v, cyr_y, cyr_ch] then Some [109]
           else if py_endswith low [cyr_i, cyr_v, cyr_n, cyr_a]
              \<or> py_endswith low [cyr_yi, cyr_v, cyr_n, cyr_a]
              \<or> py_endswith low [cyr_e, cyr_v, cyr_n, cyr_a]
              \<or> py_endswith low [cyr_ye, cyr_v, cyr_n, cyr_a] then Some [102]
           else None)"

definition split_fullname :: "ustr \<Rightarrow> py_error + (ustr option \<times> ustr option \<times> ustr option)" where
  "split_fullname fullname =
     (let parts = filter (\<lambda>p. p \<noteq> []) (py_split (py_strip fullname))
      in if parts = [] then Inr (None, None, None)
         else if length parts = 1 then
           bind_e (py_index parts 0) (\<lambda>a. Inr (None, Some a, None))
         else if length parts = 2 then
           bind_e (py_index parts 0) (\<lambda>a.
           bind_e (py_index parts 1) (\<lambda>b. Inr (Some a, Some b, None)))
         else
           bind_e (py_index parts 0) (\<lambda>a.
           bind_e (py_index parts 1) (\<lambda>b.
           bind_e (py_index parts 2) (\<lambda>c. Inr (Some a, Some b, Some c)))))"

text \<open>
  \<open>to_dative_fullname\<close> calls \<open>print(out, s, n, p)\<close> before it returns. Standard output
  is the list of the lines written so far; a line is kept as the four values handed to
  \<open>print\<close>. An exception raised before the call leaves standard output as it was.
\<close>

record print_line =
  printed_out :: "ustr list"
  printed_s :: "ustr option"
  printed_n :: "ustr option"
  printed_p :: "ustr option"

type_synonym stdout = "print_line list"

text \<open>
  The three statements \<open>if s: out.append(...)\<close>, \<open>if n: ...\<close>, \<open>if p: ...\<close> of
  \<open>to_dative_fullname\<close>, starting from \<open>out = []\<close>.
\<close>

definition inflect_parts ::
  "ustr option \<Rightarrow> ustr option \<Rightarrow> ustr option \<Rightarrow> ustr option \<Rightarrow> py_error + ustr list" where
  "inflect_parts s n p gender =
     bind_e (if truthy s then bind_e (dative_surname (the s) gender) (\<lambda>r. Inr ([] @ [r]))
             else Inr []) (\<lambda>out1.
     bind_e (if truthy n then bind_e (dative_first_name (the n)) (\<lambda>r. Inr (out1 @ [r]))
             else Inr out1) (\<lambda>out2.
     (if truthy p then bind_e (dative_patronymic (the p) gender) (\<lambda>r. Inr (out2 @ [r]))
      else Inr out2)))"

definition to_dative_fullname :: "ustr \<Rightarrow> stdout \<Rightarrow> (py_error + ustr) \<times> stdout" where
  "to_dative_fullname fullname io =
     (case split_fullname fullname of
        Inl e \<Rightarrow> (Inl e, io)
      | Inr (s, n, p) \<Rightarrow>
          (let gender = guess_gender_from_patronymic p
           in case inflect_parts s n p gender of
                Inl e \<Rightarrow> (Inl e, io)
              | Inr out \<Rightarrow>
                  (Inr (if out \<noteq> [] then py_join [SPACE] out else fullname),
                   io @ [\<lparr>printed_out = out, printed_s = s, printed_n = n, printed_p = p\<rparr>])))"

section \<open>Notions used to state the properties\<close>

text \<open>
  A token is a non-empty string without white space; a blank string has nothing else.
  \<open>mirror_case c suf\<close> is the ending \<open>suf\<close> written in the case of the code point \<open>c\<close>:
  as it is when \<open>c\<close> is lowercase, capitalised otherwise.
\<close>

definition token :: "ustr \<Rightarrow> bool" where
  "token t \<longleftrightarrow> t \<noteq> [] \<and> (\<forall>c\<in>set t. \<not> cp_isspace c)"

definition blank :: "ustr \<Rightarrow> bool" where
  "blank w \<longleftrightarrow> (\<forall>c\<in>set w. cp_isspace c)"

definition mirror_case :: "cp \<Rightarrow> ustr \<Rightarrow> ustr" where
  "mirror_case c suf = (if cp_islower c then suf else py_capitalize suf)"

text \<open>
  A word is in final form when it is a token whose last character, lowercased, is one
  of the vowels the rules write last.
\<close>

definition dative_final :: "ustr \<Rightarrow> bool" where
  "dative_final r \<longleftrightarrow> token r \<and> cp_lower (last r) \<in> {cyr_i, cyr_yi, cyr_yu, cyr_u}"

text \<open>
  The strings of the two scenarios of the specification, code point by code point:
  the input and the expected output of scenario 1, what the engine returns on that
  input, and the input and output of scenario 2.
\<close>

definition gurov_nominative :: ustr where
  "gurov_nominative =
     [1043, 1091, 1088, 1086, 1074, 32, 1044, 1077, 1085, 1080, 1089, 32,
      1057, 1077, 1088, 1075, 1110, 1081, 1086, 1074, 1080, 1095]"

definition gurov_expected :: ustr where
  "gurov_expected =
     [1043, 1091, 1088, 1086, 1074, 1091, 32, 1044, 1077, 1085, 1080, 1089, 1091, 32,
      1057, 1077, 1088, 1075, 1110, 1081, 1086, 1074, 1080, 1095, 1091]"

definition gurov_dative :: ustr where
  "gurov_dative =
     [1043, 1091, 1088, 1086, 1074, 1091, 32, 1044, 1077, 1085, 1080, 1089, 1086, 1074, 1110, 32,
      1057, 1077, 1088, 1075, 1110, 1081, 1086, 1074, 1080, 1095, 1091]"

definition shevchenko_nominative :: ustr where
  "shevchenko_nominative =
     [1064, 1077, 1074, 1095, 1077, 1085, 1082, 1086, 32, 1058, 1077, 1090, 1103, 1085, 1072, 32,
      1030, 1074, 1072, 1085, 1110, 1074, 1085, 1072]"

definition shevchenko_dative :: ustr where
  "shevchenko_dative =
     [1064, 1077, 1074, 1095, 1077, 1085, 1082, 1091, 32, 1058, 1077, 1090, 1103, 1085, 1110, 32,
      1030, 1074, 1072, 1085, 1110, 1074, 1085, 1110]"

text \<open>
  The suffix sets as the specification lists them, and what it is for a string to end
  with a suffix without regard to case: its last code points, lowercased, are the
  lowercased suffix.
\<close>

definition masculine_suffixes :: "ustr list" where
  "masculine_suffixes =
     [[cyr_o, cyr_v, cyr_y, cyr_ch],
      [cyr_j, cyr_o, cyr_v, cyr_y, cyr_ch],
      [cyr_e, cyr_v, cyr_y, cyr_ch],
      [cyr_l, cyr_soft, cyr_o, cyr_v, cyr_y, cyr_ch],
      [cyr_ye, cyr_v, cyr_y, cyr_ch]]"

definition feminine_suffixes :: "ustr list" where
  "feminine_suffixes =
     [[cyr_i, cyr_v, cyr_n, cyr_a],
      [cyr_yi, cyr_v, cyr_n, cyr_a],
      [cyr_e, cyr_v, cyr_n, cyr_a],
      [cyr_ye, cyr_v, cyr_n, cyr_a]]"

definition ci_endswith :: "ustr \<Rightarrow> ustr \<Rightarrow> bool" where
  "ci_endswith p suf \<longleftrightarrow>
     length suf \<le> length p \<and> py_lower (drop (length p - length suf) p) = py_lower suf"

definition matches_any :: "ustr \<Rightarrow> ustr list \<Rightarrow> bool" where
  "matches_any p sufs \<longleftrightarrow> (\<exists>suf\<in>set sufs. ci_endswith p suf)"

text \<open>The patronymic Illich: it ends in none of the suffixes of either set.\<close>

definition illich :: ustr where
  "illich = [1030, 1083, 1083, 1110, 1095]"





text \<open>
  A string seen as white space and tokens: \<open>spaced w [(t1, w1), ..., (tk, wk)]\<close> is the
  string \<open>w t1 w1 ... tk wk\<close>. It is well spaced when \<open>w\<close> and every \<open>wi\<close> are blank,
  every \<open>ti\<close> is a token, and the white space between two tokens is not empty; the
  tokens of the string are then \<open>t1, ..., tk\<close>.
\<close>

fun spaced :: "ustr \<Rightarrow> (ustr \<times> ustr) list \<Rightarrow> ustr" where
  "spaced w [] = w"
| "spaced w ((t, w') # r) = w @ t @ spaced w' r"

fun well_spaced :: "ustr \<Rightarrow> (ustr \<times> ustr) list \<Rightarrow> bool" where
  "well_spaced w [] = blank w"
| "well_spaced w ((t, w') # r) = (blank w \<and> token t \<and> (r \<noteq> [] \<longrightarrow> w' \<noteq> []) \<and> well_spaced w' r)"

text \<open>
  The inflected parts that are present, in the order surname, given name, patronymic,
  each with the result of its rule under the gender inferred from the patronymic.
\<close>

definition present_inflected ::
  "ustr option \<Rightarrow> ustr option \<Rightarrow> ustr option \<Rightarrow> (py_error + ustr) list" where
  "present_inflected s n p =
     (let gender = guess_gender_from_patronymic p
      in (case s of None \<Rightarrow> [] | Some x \<Rightarrow> [dative_surname x gender])
         @ (case n of None \<Rightarrow> [] | Some x \<Rightarrow> [dative_first_name x])
         @ (case p of None \<Rightarrow> [] | Some x \<Rightarrow> [dative_patronymic x gender]))"

section \<open>Facts about the string operations\<close>

lemma py_split_Nil: "py_split [] = []"
  by (simp add: py_split.simps)

lemma py_split_blank_append: "blank w \<Longrightarrow> py_split (w @ s) = py_split s"
proof -
  assume "blank w"
  then have "dropWhile cp_isspace (w @ s) = dropWhile cp_isspace s"
    by (simp add: blank_def dropWhile_append2)
  then show ?thesis
    by (subst py_split.simps, subst (2) py_split.simps) simp
qed

lemma py_split_blank: "blank w \<Longrightarrow> py_split w = []"
  using py_split_blank_append [of w "[]"] by (simp add: py_split_Nil)

lemma py_split_token_append:
  assumes "token t" and "s = [] \<or> cp_isspace (hd s)"
  shows "py_split (t @ s) = t # py_split s"
proof -
  from assms(1) obtain c cs where t: "t = c # cs" and c: "\<not> cp_isspace c"
    by (cases t) (auto simp: token_def)
  have all: "\<forall>x\<in>set t. \<not> cp_isspace x"
    using assms(1) by (simp add: token_def)
  have d: "dropWhile cp_isspace (t @ s) = t @ s"
    using t c by simp
  have tw: "takeWhile (\<lambda>c. \<not> cp_isspace c) (t @ s) = t"
    using all assms(2) by (cases s) (simp_all add: takeWhile_append2)
  have dw: "dropWhile (\<lambda>c. \<not> cp_isspace c) (t @ s) = s"
    using all assms(2) by (cases s) (simp_all add: dropWhile_append2)
  have ne: "t @ s \<noteq> []"
    using t by simp
  show ?thesis
    by (subst py_split.simps) (simp only: d tw dw ne Let_def if_False)
qed

lemma py_split_tokens: "t \<in> set (py_split s) \<Longrightarrow> token t"
proof (induction s arbitrary: t rule: py_split.induct)
  case (1 s)
  define u where "u = dropWhile cp_isspace s"
  show ?case
  proof (cases "u = []")
    case True
    with "1.prems" show ?thesis
      by (subst (asm) py_split.simps) (simp add: u_def)
  next
    case False
    then have hd: "\<not> cp_isspace (hd u)"
      unfolding u_def by (metis hd_dropWhile)
    have "py_split s = takeWhile (\<lambda>c. \<not> cp_isspace c) u
            # py_split (dropWhile (\<lambda>c. \<not> cp_isspace c) u)"
      by (subst py_split.simps) (simp only: u_def [symmetric] False Let_def if_False)
    with "1.prems"
    have "t = takeWhile (\<lambda>c. \<not> cp_isspace c) u
          \<or> t \<in> set (py_split (dropWhile (\<lambda>c. \<not> cp_isspace c) u))"
      by simp
    then show ?thesis
    proof
      assume t: "t = takeWhile (\<lambda>c. \<not> cp_isspace c) u"
      have "t \<noteq> []" using False hd unfolding t by (cases u) auto
      moreover have "\<forall>c\<in>set t. \<not> cp_isspace c"
        unfolding t by (auto dest: set_takeWhileD)
      ultimately show ?thesis by (simp add: token_def)
    next
      assume "t \<in> set (py_split (dropWhile (\<lambda>c. \<not> cp_isspace c) u))"
      with "1.IH" [OF u_def False] show ?thesis by simp
    qed
  qed
qed

lemma py_split_append_blank: "blank w \<Longrightarrow> py_split (s @ w) = py_split s"
proof (induction s rule: py_split.induct)
  case (1 s)
  define u where "u = dropWhile cp_isspace s"
  show ?case
  proof (cases "u = []")
    case True
    then have "blank s"
      unfolding u_def blank_def by (simp add: dropWhile_eq_Nil_conv)
    then have "blank (s @ w)" using "1.prems" by (auto simp: blank_def)
    then show ?thesis using \<open>blank s\<close> by (simp add: py_split_blank)
  next
    case False
    define a where "a = takeWhile (\<lambda>c. \<not> cp_isspace c) u"
    define b where "b = dropWhile (\<lambda>c. \<not> cp_isspace c) u"
    have u: "u = a @ b" by (simp add: a_def b_def)
    have hd: "\<not> cp_isspace (hd u)"
      using False unfolding u_def by (metis hd_dropWhile)
    have a: "token a"
      unfolding token_def a_def using False hd
      by (cases u) (auto dest: set_takeWhileD)
    have b: "b = [] \<or> cp_isspace (hd b)"
      unfolding b_def by (metis hd_dropWhile)
    obtain v where s: "s = v @ u" and v: "blank v"
      unfolding u_def blank_def
      by (metis set_takeWhileD takeWhile_dropWhile_id)
    have IH: "py_split (b @ w) = py_split b"
      using "1.IH" [OF u_def False] "1.prems" by (simp add: b_def)
    have bw: "b @ w = [] \<or> cp_isspace (hd (b @ w))"
      using b "1.prems" by (cases b; cases w) (auto simp: blank_def)
    have "py_split (s @ w) = py_split (a @ (b @ w))"
      using v by (simp add: s u py_split_blank_append)
    also have "\<dots> = a # py_split (b @ w)"
      by (rule py_split_token_append [OF a bw])
    also have "\<dots> = a # py_split b" by (simp add: IH)
    also have "\<dots> = py_split (a @ b)"
      by (rule py_split_token_append [OF a b, symmetric])
    also have "\<dots> = py_split s"
      using v by (simp add: s u py_split_blank_append)
    finally show ?thesis .
  qed
qed

lemma py_strip_decomp: "\<exists>v w. blank v \<and> blank w \<and> s = v @ py_strip s @ w"
proof -
  define u where "u = dropWhile cp_isspace s"
  have 1: "s = takeWhile cp_isspace s @ u"
    by (simp add: u_def)
  have "rev u = takeWhile cp_isspace (rev u) @ dropWhile cp_isspace (rev u)"
    by simp
  then have "u = rev (dropWhile cp_isspace (rev u)) @ rev (takeWhile cp_isspace (rev u))"
    by (metis rev_append rev_rev_ident)
  then have 2: "u = py_strip s @ rev (takeWhile cp_isspace (rev u))"
    by (simp add: py_strip_def u_def)
  have "blank (takeWhile cp_isspace s)"
    by (auto simp: blank_def dest: set_takeWhileD)
  moreover have "blank (rev (takeWhile cp_isspace (rev u)))"
    by (auto simp: blank_def dest: set_takeWhileD)
  ultimately show ?thesis using 1 2 by metis
qed

lemma py_split_strip: "py_split (py_strip s) = py_split s"
proof -
  obtain v w where "blank v" "blank w" "s = v @ py_strip s @ w"
    using py_strip_decomp by blast
  then show ?thesis
    by (metis py_split_append_blank py_split_blank_append)
qed

lemma cp_lower_idem: "cp_lower (cp_lower c) = cp_lower c"
  by (simp add: cp_lower_def)

lemma py_lower_eq_Nil: "py_lower s = [] \<longleftrightarrow> s = []"
  by (simp add: py_lower_def)

lemma last_py_lower: "s \<noteq> [] \<Longrightarrow> last (py_lower s) = cp_lower (last s)"
  by (simp add: py_lower_def last_map)

lemma py_endswith_iff: "py_endswith s suf \<longleftrightarrow> (\<exists>pre. s = pre @ suf)"
proof
  assume "py_endswith s suf"
  then have "s = take (length s - length suf) s @ suf"
    by (metis append_take_drop_id py_endswith_def)
  then show "\<exists>pre. s = pre @ suf" ..
next
  assume "\<exists>pre. s = pre @ suf"
  then show "py_endswith s suf"
    by (auto simp: py_endswith_def)
qed

lemma py_endswith_single: "py_endswith s [c] \<longleftrightarrow> s \<noteq> [] \<and> last s = c"
  unfolding py_endswith_iff
  by (metis append_butlast_last_id last_snoc snoc_eq_iff_butlast)

lemma py_endswith_last: "py_endswith s suf \<Longrightarrow> suf \<noteq> [] \<Longrightarrow> s \<noteq> [] \<and> last s = last suf"
  unfolding py_endswith_iff by auto

section \<open>The three inflection rules as one equation each\<close>

lemma mirror_case_simps:
  "mirror_case c [cyr_i] = (if cp_islower c then [cyr_i] else [CYR_I])"
  "mirror_case c [cyr_yi] = (if cp_islower c then [cyr_yi] else [CYR_YI])"
  "mirror_case c [cyr_yu] = (if cp_islower c then [cyr_yu] else [CYR_YU])"
  "mirror_case c [cyr_u] = (if cp_islower c then [cyr_u] else [CYR_U])"
  "mirror_case c [cyr_o, cyr_v, cyr_i] = (if cp_islower c then [cyr_o, cyr_v, cyr_i] else [1054, cyr_v, cyr_i])"
  by (simp_all add: mirror_case_def py_capitalize_def cp_upper_def cp_lower_def)

lemma dative_first_name_eq:
  assumes "n = py_strip name"
  shows "dative_first_name name = Inr
     (if n = [] then n
      else if cp_lower (last n) = cyr_a then butlast n @ mirror_case (last n) [cyr_i]
      else if cp_lower (last n) = cyr_ya then butlast n @ mirror_case (last n) [cyr_yi]
      else if cp_lower (last n) = cyr_j then butlast n @ mirror_case (last n) [cyr_yu]
      else if cp_lower (last n) = cyr_o then butlast n @ mirror_case (last n) [cyr_o, cyr_v, cyr_i]
      else if \<not> is_vowel (last n) then n @ mirror_case (last n) [cyr_o, cyr_v, cyr_i]
      else n)"
  unfolding dative_first_name_def assms [symmetric] Let_def
  by (simp add: py_endswith_single py_lower_eq_Nil last_py_lower py_last_def bind_e_def py_init_def
      mirror_case_def py_capitalize_def py_upper_def cp_upper_def is_vowel_def cp_lower_idem VOWELS_def)

lemma dative_surname_eq:
  assumes "s = py_strip surname"
  shows "dative_surname surname gender = Inr
     (if s = [] then s
      else if cp_lower (last s) = cyr_o then butlast s @ mirror_case (last s) [cyr_u]
      else if cp_lower (last s) = cyr_a then butlast s @ mirror_case (last s) [cyr_i]
      else if cp_lower (last s) = cyr_ya then butlast s @ mirror_case (last s) [cyr_yi]
      else if cp_lower (last s) = cyr_j then butlast s @ mirror_case (last s) [cyr_yu]
      else if \<not> is_vowel (last s) then s @ mirror_case (last s) [cyr_u]
      else s)"
  unfolding dative_surname_def assms [symmetric] Let_def
  by (auto simp add: py_endswith_single py_lower_eq_Nil last_py_lower py_last_def bind_e_def py_init_def
      mirror_case_def py_capitalize_def py_upper_def cp_upper_def is_vowel_def cp_lower_idem VOWELS_def
      dest: py_endswith_last)

lemma truthy_endswith_any:
  "[] \<notin> set sufs \<Longrightarrow> truthy (endswith_any s sufs) \<longleftrightarrow> (\<exists>suf\<in>set sufs. py_endswith s suf)"
  by (induction sufs) auto

lemma male_suf_nonempty: "[] \<notin> set male_suf"
  by (simp add: male_suf_def)

lemma fem_suf_nonempty: "[] \<notin> set fem_suf"
  by (simp add: fem_suf_def)

lemma dative_patronymic_eq:
  "dative_patronymic p gender = Inr
     (if p = [] then []
      else if \<exists>suf\<in>set male_suf. py_endswith (py_lower p) suf then p @ mirror_case (last p) [cyr_u]
      else if \<exists>suf\<in>set fem_suf. py_endswith (py_lower p) suf then butlast p @ mirror_case (last p) [cyr_i]
      else if gender = Some [102] then
        (if cp_lower (last p) = cyr_a then butlast p @ mirror_case (last p) [cyr_i]
         else if cp_lower (last p) = cyr_ya then butlast p @ mirror_case (last p) [cyr_yi]
         else p)
      else if \<not> is_vowel (last p) then p @ mirror_case (last p) [cyr_u]
      else p)"
  unfolding dative_patronymic_def Let_def
    truthy_endswith_any [OF male_suf_nonempty] truthy_endswith_any [OF fem_suf_nonempty]
  by (simp add: py_endswith_single py_lower_eq_Nil last_py_lower py_last_def bind_e_def py_init_def
      mirror_case_def py_capitalize_def py_upper_def cp_upper_def is_vowel_def cp_lower_idem VOWELS_def)

lemma male_suf_last:
  assumes "suf \<in> set male_suf" and "py_endswith (py_lower p) suf"
  shows "p \<noteq> [] \<and> cp_lower (last p) = cyr_ch"
proof -
  have 1: "suf \<noteq> []" and 2: "last suf = cyr_ch"
    using assms(1) by (auto simp: male_suf_def)
  from py_endswith_last [OF assms(2) 1] have "py_lower p \<noteq> []" "last (py_lower p) = cyr_ch"
    by (simp_all add: 2)
  then show ?thesis
    by (simp add: py_lower_eq_Nil last_py_lower)
qed

lemma fem_suf_last:
  assumes "suf \<in> set fem_suf" and "py_endswith (py_lower p) suf"
  shows "p \<noteq> [] \<and> cp_lower (last p) = cyr_a"
proof -
  have 1: "suf \<noteq> []" and 2: "last suf = cyr_a"
    using assms(1) by (auto simp: fem_suf_def)
  from py_endswith_last [OF assms(2) 1] have "py_lower p \<noteq> []" "last (py_lower p) = cyr_a"
    by (simp_all add: 2)
  then show ?thesis
    by (simp add: py_lower_eq_Nil last_py_lower)
qed

lemma guess_gender_eq:
  "guess_gender_from_patronymic p =
     (case p of None \<Rightarrow> None
      | Some x \<Rightarrow>
          if \<exists>suf\<in>set male_suf. py_endswith (py_lower x) suf then Some [109]
          else if \<exists>suf\<in>set fem_suf. py_endswith (py_lower x) suf then Some [102]
          else None)"
proof (cases p)
  case None
  then show ?thesis by (simp add: guess_gender_from_patronymic_def)
next
  case (Some x)
  show ?thesis
  proof (cases "x = []")
    case True
    then show ?thesis
      by (simp add: Some guess_gender_from_patronymic_def male_suf_def fem_suf_def py_lower_def py_endswith_def)
  next
    case False
    then show ?thesis
      by (simp add: Some guess_gender_from_patronymic_def male_suf_def fem_suf_def Let_def)
  qed
qed

section \<open>What an inflected word looks like, and that it is inflected no further\<close>

lemma py_strip_token: "token w \<Longrightarrow> py_strip w = w"
proof -
  assume w: "token w"
  then have "dropWhile cp_isspace w = w"
    by (cases w) (auto simp: token_def)
  moreover from w have "dropWhile cp_isspace (rev w) = rev w"
    by (cases "rev w") (auto simp: token_def)
  ultimately show ?thesis by (simp add: py_strip_def)
qed

lemma dative_final_append:
  assumes "\<forall>c\<in>set pre. \<not> cp_isspace c"
    and "suf \<in> {[cyr_i], [cyr_yi], [cyr_yu], [cyr_u], [cyr_o, cyr_v, cyr_i]}"
  shows "dative_final (pre @ mirror_case c suf)"
proof -
  have "mirror_case c suf \<noteq> []" "\<forall>x\<in>set (mirror_case c suf). \<not> cp_isspace x"
    "cp_lower (last (mirror_case c suf)) \<in> {cyr_i, cyr_yi, cyr_yu, cyr_u}"
    using assms(2) by (cases "cp_islower c"; auto simp: mirror_case_simps cp_isspace_def cp_lower_def)+
  then show ?thesis
    using assms(1) by (auto simp: dative_final_def token_def)
qed

lemma dative_final_forms:
  assumes "token w"
  shows "dative_final (w @ mirror_case c [cyr_u])"
    and "dative_final (w @ mirror_case c [cyr_o, cyr_v, cyr_i])"
    and "dative_final (butlast w @ mirror_case c [cyr_u])"
    and "dative_final (butlast w @ mirror_case c [cyr_i])"
    and "dative_final (butlast w @ mirror_case c [cyr_yi])"
    and "dative_final (butlast w @ mirror_case c [cyr_yu])"
    and "dative_final (butlast w @ mirror_case c [cyr_o, cyr_v, cyr_i])"
proof -
  have 1: "\<forall>c\<in>set w. \<not> cp_isspace c" and 2: "\<forall>c\<in>set (butlast w). \<not> cp_isspace c"
    using assms by (auto simp: token_def dest: in_set_butlastD)
  show "dative_final (w @ mirror_case c [cyr_u])"
    by (rule dative_final_append [OF 1]) simp
  show "dative_final (w @ mirror_case c [cyr_o, cyr_v, cyr_i])"
    by (rule dative_final_append [OF 1]) simp
  show "dative_final (butlast w @ mirror_case c [cyr_u])"
    by (rule dative_final_append [OF 2]) simp
  show "dative_final (butlast w @ mirror_case c [cyr_i])"
    by (rule dative_final_append [OF 2]) simp
  show "dative_final (butlast w @ mirror_case c [cyr_yi])"
    by (rule dative_final_append [OF 2]) simp
  show "dative_final (butlast w @ mirror_case c [cyr_yu])"
    by (rule dative_final_append [OF 2]) simp
  show "dative_final (butlast w @ mirror_case c [cyr_o, cyr_v, cyr_i])"
    by (rule dative_final_append [OF 2]) simp
qed

lemma first_name_result:
  assumes "token w" and "dative_first_name w = Inr r"
  shows "r = w \<or> dative_final r"
proof -
  have "r = (if w = [] then w
      else if cp_lower (last w) = cyr_a then butlast w @ mirror_case (last w) [cyr_i]
      else if cp_lower (last w) = cyr_ya then butlast w @ mirror_case (last w) [cyr_yi]
      else if cp_lower (last w) = cyr_j then butlast w @ mirror_case (last w) [cyr_yu]
      else if cp_lower (last w) = cyr_o then butlast w @ mirror_case (last w) [cyr_o, cyr_v, cyr_i]
      else if \<not> is_vowel (last w) then w @ mirror_case (last w) [cyr_o, cyr_v, cyr_i]
      else w)"
    using assms(2)
    by (simp add: py_strip_token [OF assms(1)] dative_first_name_eq [of w w])
  then show ?thesis
    using dative_final_forms [OF assms(1), of "last w"] by (simp split: if_splits)
qed

lemma surname_result:
  assumes "token w" and "dative_surname w g = Inr r"
  shows "r = w \<or> dative_final r"
proof -
  have "r = (if w = [] then w
      else if cp_lower (last w) = cyr_o then butlast w @ mirror_case (last w) [cyr_u]
      else if cp_lower (last w) = cyr_a then butlast w @ mirror_case (last w) [cyr_i]
      else if cp_lower (last w) = cyr_ya then butlast w @ mirror_case (last w) [cyr_yi]
      else if cp_lower (last w) = cyr_j then butlast w @ mirror_case (last w) [cyr_yu]
      else if \<not> is_vowel (last w) then w @ mirror_case (last w) [cyr_u]
      else w)"
    using assms(2)
    by (simp add: py_strip_token [OF assms(1)] dative_surname_eq [of w w])
  then show ?thesis
    using dative_final_forms [OF assms(1), of "last w"] by (simp split: if_splits)
qed

lemma patronymic_result:
  assumes "token w" and "dative_patronymic w g = Inr r"
  shows "r = w \<or> dative_final r"
  using assms(2) dative_final_forms [OF assms(1), of "last w"]
  by (simp add: dative_patronymic_eq split: if_splits)

lemma is_vowel_final: "cp_lower c \<in> {cyr_i, cyr_yi, cyr_yu, cyr_u} \<Longrightarrow> is_vowel c"
  by (auto simp: is_vowel_def VOWELS_def)

lemma first_name_fixed:
  assumes "dative_final r"
  shows "dative_first_name r = Inr r"
proof -
  have t: "token r" and l: "cp_lower (last r) \<in> {cyr_i, cyr_yi, cyr_yu, cyr_u}"
    using assms by (simp_all add: dative_final_def)
  from l is_vowel_final [OF l] show ?thesis
    by (auto simp add: dative_first_name_eq [of r r] py_strip_token [OF t])
qed

lemma surname_fixed:
  assumes "dative_final r"
  shows "dative_surname r g = Inr r"
proof -
  have t: "token r" and l: "cp_lower (last r) \<in> {cyr_i, cyr_yi, cyr_yu, cyr_u}"
    using assms by (simp_all add: dative_final_def)
  from l is_vowel_final [OF l] show ?thesis
    by (auto simp add: dative_surname_eq [of r r] py_strip_token [OF t])
qed

lemma no_suffix_final:
  assumes "dative_final r"
  shows "\<not> (\<exists>suf\<in>set male_suf. py_endswith (py_lower r) suf)"
    and "\<not> (\<exists>suf\<in>set fem_suf. py_endswith (py_lower r) suf)"
proof -
  have l: "cp_lower (last r) \<in> {cyr_i, cyr_yi, cyr_yu, cyr_u}"
    using assms by (simp add: dative_final_def)
  show "\<not> (\<exists>suf\<in>set male_suf. py_endswith (py_lower r) suf)"
  proof
    assume "\<exists>suf\<in>set male_suf. py_endswith (py_lower r) suf"
    then have "cp_lower (last r) = cyr_ch" using male_suf_last by blast
    with l show False by simp
  qed
  show "\<not> (\<exists>suf\<in>set fem_suf. py_endswith (py_lower r) suf)"
  proof
    assume "\<exists>suf\<in>set fem_suf. py_endswith (py_lower r) suf"
    then have "cp_lower (last r) = cyr_a" using fem_suf_last by blast
    with l show False by simp
  qed
qed

lemma patronymic_fixed:
  assumes "dative_final r"
  shows "dative_patronymic r g = Inr r"
proof -
  have t: "token r" and l: "cp_lower (last r) \<in> {cyr_i, cyr_yi, cyr_yu, cyr_u}"
    using assms by (simp_all add: dative_final_def)
  from l is_vowel_final [OF l] show ?thesis
    by (auto simp add: dative_patronymic_eq no_suffix_final [OF assms])
qed

lemma guess_gender_final: "dative_final r \<Longrightarrow> guess_gender_from_patronymic (Some r) = None"
  by (simp add: guess_gender_eq no_suffix_final)

section \<open>Totality\<close>

lemma filter_py_split: "filter (\<lambda>p. p \<noteq> []) (py_split s) = py_split s"
  using py_split_tokens [of _ s] by (simp add: filter_id_conv token_def)

lemma split_fullname_eq:
  "split_fullname fullname = Inr
     (case py_split fullname of
        [] \<Rightarrow> (None, None, None)
      | [a] \<Rightarrow> (None, Some a, None)
      | [a, b] \<Rightarrow> (Some a, Some b, None)
      | a # b # c # rest \<Rightarrow> (Some a, Some b, Some c))"
proof -
  have "filter (\<lambda>p. p \<noteq> []) (py_split (py_strip fullname)) = py_split fullname"
    by (simp add: filter_py_split py_split_strip)
  then show ?thesis
    unfolding split_fullname_def Let_def
    by (simp add: py_index_def bind_e_def split: list.splits)
qed

lemma dative_first_name_total: "\<exists>r. dative_first_name w = Inr r"
  using dative_first_name_eq [of "py_strip w" w] by simp

lemma dative_surname_total: "\<exists>r. dative_surname w g = Inr r"
  using dative_surname_eq [of "py_strip w" w g] by simp

lemma dative_patronymic_total: "\<exists>r. dative_patronymic w g = Inr r"
  using dative_patronymic_eq [of w g] by simp

lemma inflect_parts_eq:
  assumes "dative_surname (the s) g = Inr a"
    and "dative_first_name (the n) = Inr b"
    and "dative_patronymic (the p) g = Inr c"
  shows "inflect_parts s n p g =
    Inr ((if truthy s then [a] else []) @ (if truthy n then [b] else []) @ (if truthy p then [c] else []))"
  unfolding inflect_parts_def by (simp add: assms bind_e_def)



section \<open>The two scenarios of the specification\<close>

text \<open>The definitions to unfold when the engine is run on a given string.\<close>

lemmas eval_defs =
  to_dative_fullname_def split_fullname_def py_split.simps cp_isspace_def py_strip_def inflect_parts_def
  dative_surname_def dative_first_name_def dative_patronymic_def guess_gender_from_patronymic_def
  py_lower_def cp_lower_def py_endswith_def py_last_def py_init_def bind_e_def py_index_def
  is_vowel_def VOWELS_def cp_islower_def male_suf_def fem_suf_def py_capitalize_def py_upper_def
  cp_upper_def Let_def

text \<open>
  Claim C3 says that the input \<open>gurov_nominative\<close> (surname Gurov, given name Denys,
  patronymic Serhiiovych) gives \<open>gurov_expected\<close>, where the given name ends in the
  letter \<open>cyr_u\<close>. The engine does not return that string.
\<close>

theorem gurov_counterexample:
  "fst (to_dative_fullname gurov_nominative []) \<noteq> Inr gurov_expected"
  unfolding gurov_nominative_def gurov_expected_def by (simp add: eval_defs)

text \<open>
  Claim C3, amended. On \<open>gurov_nominative\<close> the engine returns \<open>gurov_dative\<close>: the
  given name ends in a consonant, so \<open>dative_first_name\<close> appends the three letters
  \<open>cyr_o\<close>, \<open>cyr_v\<close>, \<open>cyr_i\<close>; the surname and the patronymic are as the claim has
  them.
\<close>

theorem gurov_scenario:
  "fst (to_dative_fullname gurov_nominative io) = Inr gurov_dative"
  unfolding gurov_nominative_def gurov_dative_def by (simp add: eval_defs)

text \<open>
  Claim C4. On \<open>shevchenko_nominative\<close> (surname Shevchenko, given name Tetiana,
  patronymic Ivanivna) the engine returns \<open>shevchenko_dative\<close>: the surname, which ends
  in \<open>cyr_k\<close>, \<open>cyr_o\<close>, has its last letter replaced by \<open>cyr_u\<close>; the given name has
  its final \<open>cyr_a\<close> replaced by \<open>cyr_i\<close>; the patronymic matches a feminine suffix and
  has its final \<open>cyr_a\<close> replaced by \<open>cyr_i\<close>, whatever gender is passed.
\<close>

theorem shevchenko_scenario:
  "fst (to_dative_fullname shevchenko_nominative io) = Inr shevchenko_dative
   \<and> py_endswith (py_lower [1064, 1077, 1074, 1095, 1077, 1085, 1082, 1086]) [cyr_k, cyr_o]
   \<and> dative_surname [1064, 1077, 1074, 1095, 1077, 1085, 1082, 1086] g
       = Inr [1064, 1077, 1074, 1095, 1077, 1085, 1082, 1091]
   \<and> dative_first_name [1058, 1077, 1090, 1103, 1085, 1072]
       = Inr [1058, 1077, 1090, 1103, 1085, 1110]
   \<and> truthy (endswith_any (py_lower [1030, 1074, 1072, 1085, 1110, 1074, 1085, 1072]) fem_suf)
   \<and> dative_patronymic [1030, 1074, 1072, 1085, 1110, 1074, 1085, 1072] g
       = Inr [1030, 1074, 1072, 1085, 1110, 1074, 1085, 1110]"
  unfolding shevchenko_nominative_def shevchenko_dative_def by (simp add: eval_defs)

theorem shevchenko_scenario_witness:
  "fst (to_dative_fullname shevchenko_nominative []) = Inr shevchenko_dative
   \<and> dative_first_name [1058, 1077, 1090, 1103, 1085, 1072]
       = Inr [1058, 1077, 1090, 1103, 1085, 1110]"
  using shevchenko_scenario [of "[]" None] by simp

section \<open>Gender inference and the patronymic rule\<close>

lemma ci_endswith_lower:
  "py_lower suf = suf \<Longrightarrow> ci_endswith p suf \<longleftrightarrow> py_endswith (py_lower p) suf"
  by (simp add: ci_endswith_def py_endswith_def py_lower_def drop_map)

lemma matches_masculine:
  "matches_any p masculine_suffixes \<longleftrightarrow> (\<exists>suf\<in>set male_suf. py_endswith (py_lower p) suf)"
proof -
  have "\<forall>suf\<in>set masculine_suffixes. py_lower suf = suf"
    by (simp add: masculine_suffixes_def py_lower_def cp_lower_def)
  moreover have "set male_suf = set masculine_suffixes"
    by (simp add: masculine_suffixes_def male_suf_def)
  ultimately show ?thesis
    by (auto simp: matches_any_def ci_endswith_lower)
qed

lemma matches_feminine:
  "matches_any p feminine_suffixes \<longleftrightarrow> (\<exists>suf\<in>set fem_suf. py_endswith (py_lower p) suf)"
proof -
  have "\<forall>suf\<in>set feminine_suffixes. py_lower suf = suf"
    by (simp add: feminine_suffixes_def py_lower_def cp_lower_def)
  moreover have "set fem_suf = set feminine_suffixes"
    by (auto simp: feminine_suffixes_def fem_suf_def)
  ultimately show ?thesis
    by (auto simp: matches_any_def ci_endswith_lower)
qed

text \<open>
  Claim C6. \<open>guess_gender_from_patronymic\<close> returns \<open>"m"\<close> exactly when the patronymic
  ends, without regard to case, with a masculine suffix; \<open>"f"\<close> exactly when it ends
  with no masculine suffix and with a feminine one; and \<open>None\<close> exactly when it is
  \<open>None\<close>, empty, or ends with neither.
\<close>

theorem guess_gender_spec:
  "(guess_gender_from_patronymic p = Some [109] \<longleftrightarrow>
      (\<exists>x. p = Some x \<and> matches_any x masculine_suffixes))
   \<and> (guess_gender_from_patronymic p = Some [102] \<longleftrightarrow>
      (\<exists>x. p = Some x \<and> \<not> matches_any x masculine_suffixes \<and> matches_any x feminine_suffixes))
   \<and> (guess_gender_from_patronymic p = None \<longleftrightarrow>
      (p = None \<or> p = Some [] \<or>
       (\<exists>x. p = Some x \<and> \<not> matches_any x masculine_suffixes \<and> \<not> matches_any x feminine_suffixes)))"
proof (cases p)
  case None
  then show ?thesis by (simp add: guess_gender_eq)
next
  case (Some x)
  have "x = [] \<Longrightarrow> \<not> matches_any x masculine_suffixes \<and> \<not> matches_any x feminine_suffixes"
    by (simp add: matches_any_def ci_endswith_def masculine_suffixes_def feminine_suffixes_def)
  then show ?thesis
    unfolding Some guess_gender_eq matches_masculine [symmetric] matches_feminine [symmetric]
    by auto
qed

theorem guess_gender_spec_witness:
  "guess_gender_from_patronymic (Some [1030, 1074, 1072, 1085, 1110, 1074, 1085, 1072]) = Some [102]
   \<and> guess_gender_from_patronymic (Some illich) = None
   \<and> guess_gender_from_patronymic None = None"
  using guess_gender_spec [of "Some [1030, 1074, 1072, 1085, 1110, 1074, 1085, 1072]"]
    guess_gender_spec [of "Some illich"] guess_gender_spec [of None]
  by (simp add: illich_def matches_any_def ci_endswith_def masculine_suffixes_def feminine_suffixes_def
      py_lower_def cp_lower_def)




section \<open>Case of the ending\<close>







section \<open>Splitting a full name\<close>

lemma well_spaced_blank: "well_spaced w r \<Longrightarrow> blank w"
  by (cases r) auto

lemma spaced_starts_blank:
  assumes "well_spaced w r" and "r \<noteq> [] \<longrightarrow> w \<noteq> []"
  shows "spaced w r = [] \<or> cp_isspace (hd (spaced w r))"
proof (cases r)
  case Nil
  with assms(1) show ?thesis by (cases w) (auto simp: blank_def)
next
  case (Cons a r')
  with assms have "w \<noteq> []" "blank w" by (auto dest: well_spaced_blank)
  then show ?thesis by (cases w; cases a) (auto simp: Cons blank_def)
qed

lemma py_split_spaced: "well_spaced w r \<Longrightarrow> py_split (spaced w r) = map fst r"
proof (induction r arbitrary: w)
  case Nil
  then show ?case by (simp add: py_split_blank)
next
  case (Cons a r)
  obtain t w' where a: "a = (t, w')" by (cases a)
  from Cons.prems have w: "blank w" and t: "token t" and sep: "r \<noteq> [] \<longrightarrow> w' \<noteq> []"
    and ws: "well_spaced w' r"
    by (simp_all add: a)
  have "py_split (spaced w (a # r)) = py_split (t @ spaced w' r)"
    by (simp add: a py_split_blank_append [OF w])
  also have "\<dots> = t # py_split (spaced w' r)"
    by (rule py_split_token_append [OF t spaced_starts_blank [OF ws sep]])
  also have "\<dots> = map fst (a # r)"
    by (simp add: a Cons.IH [OF ws])
  finally show ?case .
qed

lemma spaced_exists: "\<exists>w r. well_spaced w r \<and> s = spaced w r"
proof (induction s rule: length_induct)
  case (1 s)
  define v where "v = takeWhile cp_isspace s"
  define u where "u = dropWhile cp_isspace s"
  have s: "s = v @ u" and v: "blank v"
    by (auto simp: v_def u_def blank_def dest: set_takeWhileD)
  show ?case
  proof (cases "u = []")
    case True
    then have "well_spaced v [] \<and> s = spaced v []"
      using s v by simp
    then show ?thesis by blast
  next
    case False
    define a where "a = takeWhile (\<lambda>c. \<not> cp_isspace c) u"
    define b where "b = dropWhile (\<lambda>c. \<not> cp_isspace c) u"
    have u: "u = a @ b" by (simp add: a_def b_def)
    have hd: "\<not> cp_isspace (hd u)"
      using False unfolding u_def by (metis hd_dropWhile)
    have a: "token a"
      unfolding token_def a_def using False hd
      by (cases u) (auto dest: set_takeWhileD)
    have b: "b = [] \<or> cp_isspace (hd b)"
      unfolding b_def by (metis hd_dropWhile)
    have "length b < length s"
      using a by (simp add: s u token_def)
    with 1 obtain w' r where wr: "well_spaced w' r" and bs: "b = spaced w' r"
      by blast
    have sep: "r \<noteq> [] \<longrightarrow> w' \<noteq> []"
    proof (intro impI notI)
      assume "r \<noteq> []" and "w' = []"
      then obtain t w'' r' where r: "r = (t, w'') # r'"
        by (cases r) auto
      with wr have "token t" by simp
      then have "b \<noteq> []" "\<not> cp_isspace (hd b)"
        unfolding bs r \<open>w' = []\<close> by (cases t; simp add: token_def)+
      with b show False by simp
    qed
    have "well_spaced v ((a, w') # r) \<and> s = spaced v ((a, w') # r)"
      using v a sep wr by (simp add: s u bs)
    then show ?thesis by blast
  qed
qed

text \<open>
  Claim C5. For a string with the tokens \<open>t1, ..., tk\<close>, \<open>split_fullname\<close> returns three
  times \<open>None\<close> when there is no token (the string is empty or blank), the one token as
  the given name when \<open>k = 1\<close>, surname and given name when \<open>k = 2\<close>, and the first three
  tokens when \<open>k \<ge> 3\<close>, the others being dropped. It never raises: the result is always
  a triple. Every string is well spaced in this sense, so this covers every input.
\<close>

theorem split_fullname_spec:
  "(\<forall>w r. well_spaced w r \<longrightarrow>
      split_fullname (spaced w r) = Inr
        (case map fst r of
           [] \<Rightarrow> (None, None, None)
         | [a] \<Rightarrow> (None, Some a, None)
         | [a, b] \<Rightarrow> (Some a, Some b, None)
         | a # b # c # rest \<Rightarrow> (Some a, Some b, Some c)))
   \<and> (\<forall>s. \<exists>w r. well_spaced w r \<and> s = spaced w r)
   \<and> (\<forall>s. blank s \<longrightarrow> split_fullname s = Inr (None, None, None))
   \<and> (\<forall>s. \<exists>triple. split_fullname s = Inr triple)"
proof (intro conjI allI impI)
  fix w r assume "well_spaced w r"
  then show "split_fullname (spaced w r) = Inr
        (case map fst r of
           [] \<Rightarrow> (None, None, None)
         | [a] \<Rightarrow> (None, Some a, None)
         | [a, b] \<Rightarrow> (Some a, Some b, None)
         | a # b # c # rest \<Rightarrow> (Some a, Some b, Some c))"
    by (simp only: split_fullname_eq py_split_spaced)
next
  fix s show "\<exists>w r. well_spaced w r \<and> s = spaced w r"
    by (rule spaced_exists)
next
  fix s assume "blank s"
  then show "split_fullname s = Inr (None, None, None)"
    by (simp add: split_fullname_eq py_split_blank)
next
  fix s show "\<exists>triple. split_fullname s = Inr triple"
    unfolding split_fullname_eq by (rule exI) (rule refl)
qed

theorem split_fullname_spec_witness:
  "split_fullname [SPACE, 65, 66, 9, 67, SPACE, SPACE, 68, 10, 69, 70] = Inr (Some [65, 66], Some [67], Some [68])
   \<and> split_fullname [SPACE, 65, 66, 9] = Inr (None, Some [65, 66], None)
   \<and> split_fullname [SPACE, 9] = Inr (None, None, None)"
proof -
  have 1: "well_spaced [SPACE] [([65, 66], [9]), ([67], [SPACE, SPACE]), ([68], [10]), ([69, 70], [])]"
    and 2: "well_spaced [SPACE] [([65, 66], [9])]"
    and 3: "blank [SPACE, 9]"
    by (simp_all add: blank_def token_def cp_isspace_def)
  from split_fullname_spec have
    a: "\<And>w r. well_spaced w r \<Longrightarrow> split_fullname (spaced w r) = Inr
        (case map fst r of
           [] \<Rightarrow> (None, None, None)
         | [a] \<Rightarrow> (None, Some a, None)
         | [a, b] \<Rightarrow> (Some a, Some b, None)
         | a # b # c # rest \<Rightarrow> (Some a, Some b, Some c))"
    and b: "\<And>s. blank s \<Longrightarrow> split_fullname s = Inr (None, None, None)"
    by blast+
  show ?thesis
    using a [OF 1] a [OF 2] b [OF 3] by simp
qed

section \<open>The output as the join of the parts\<close>

lemma split_fullname_parts:
  assumes "split_fullname fullname = Inr (s, n, p)"
  shows "(\<forall>x. s = Some x \<longrightarrow> token x) \<and> (\<forall>x. n = Some x \<longrightarrow> token x) \<and> (\<forall>x. p = Some x \<longrightarrow> token x)"
  using assms py_split_tokens [of _ fullname]
  by (auto simp: split_fullname_eq split: list.splits)

lemma truthy_token: "\<forall>x. s = Some x \<longrightarrow> token x \<Longrightarrow> truthy s \<longleftrightarrow> s \<noteq> None"
  by (cases s) (auto simp: token_def)

lemma inflect_parts_present:
  assumes "\<forall>x. s = Some x \<longrightarrow> token x" "\<forall>x. n = Some x \<longrightarrow> token x" "\<forall>x. p = Some x \<longrightarrow> token x"
  shows "\<exists>out. inflect_parts s n p (guess_gender_from_patronymic p) = Inr out
      \<and> present_inflected s n p = map Inr out
      \<and> (out = [] \<longleftrightarrow> s = None \<and> n = None \<and> p = None)"
proof -
  let ?g = "guess_gender_from_patronymic p"
  obtain a where a: "dative_surname (the s) ?g = Inr a"
    using dative_surname_total by blast
  obtain b where b: "dative_first_name (the n) = Inr b"
    using dative_first_name_total by blast
  obtain c where c: "dative_patronymic (the p) ?g = Inr c"
    using dative_patronymic_total by blast
  note abc = a b c
  let ?out = "(if s \<noteq> None then [a] else []) @ (if n \<noteq> None then [b] else [])
     @ (if p \<noteq> None then [c] else [])"
  have 1: "inflect_parts s n p ?g = Inr ?out"
    by (simp add: inflect_parts_eq [OF abc] truthy_token assms)
  have 2: "present_inflected s n p = map Inr ?out"
    using abc by (cases s; cases n; cases p) (simp_all add: present_inflected_def Let_def)
  have 3: "?out = [] \<longleftrightarrow> s = None \<and> n = None \<and> p = None"
    by simp
  from 1 2 3 show ?thesis by blast
qed

text \<open>
  Claim C2 says that the output is, for every input, the single-space join of the
  inflected parts that are present. A string of one space has no part, the join of no
  parts is the empty string, and the engine returns the one space.
\<close>

theorem join_of_parts_counterexample:
  "split_fullname [SPACE] = Inr (None, None, None)
   \<and> present_inflected None None None = map Inr []
   \<and> fst (to_dative_fullname [SPACE] []) = Inr [SPACE]
   \<and> fst (to_dative_fullname [SPACE] []) \<noteq> Inr (py_join [SPACE] [])"
  by (simp add: present_inflected_def eval_defs)

text \<open>
  Claim C2, amended. When the input has at least one token, the output is the
  single-space join of the inflected parts that are present, in the order surname,
  given name, patronymic, absent parts omitted. When it has none (the three parts are
  all \<open>None\<close>), the output is the input itself: the empty string for the empty input,
  and a string that again has no part otherwise.
\<close>

theorem join_of_parts:
  assumes "split_fullname fullname = Inr (s, n, p)"
  shows "\<exists>out. present_inflected s n p = map Inr out
      \<and> (out = [] \<longleftrightarrow> s = None \<and> n = None \<and> p = None)
      \<and> fst (to_dative_fullname fullname io)
          = Inr (if out = [] then fullname else py_join [SPACE] out)
      \<and> (fullname = [] \<longrightarrow> fst (to_dative_fullname fullname io) = Inr [])
      \<and> (out = [] \<longrightarrow> split_fullname (if out = [] then fullname else py_join [SPACE] out)
            = Inr (None, None, None))"
proof -
  note parts = split_fullname_parts [OF assms]
  obtain out where 1: "inflect_parts s n p (guess_gender_from_patronymic p) = Inr out"
    and 2: "present_inflected s n p = map Inr out"
    and 3: "out = [] \<longleftrightarrow> s = None \<and> n = None \<and> p = None"
    using inflect_parts_present [of s n p] parts by blast
  have 4: "fst (to_dative_fullname fullname io)
      = Inr (if out = [] then fullname else py_join [SPACE] out)"
    by (simp add: to_dative_fullname_def assms 1 Let_def)
  have 5: "fullname = [] \<longrightarrow> out = []"
    using assms 3 by (auto simp: split_fullname_eq py_split_Nil)
  have 6: "out = [] \<longrightarrow> split_fullname (if out = [] then fullname else py_join [SPACE] out)
      = Inr (None, None, None)"
    using assms 3 by simp
  from 2 3 4 5 6 show ?thesis by auto
qed

theorem join_of_parts_witness:
  "fst (to_dative_fullname shevchenko_nominative [])
     = Inr (py_join [SPACE]
         [[1064, 1077, 1074, 1095, 1077, 1085, 1082, 1091], [1058, 1077, 1090, 1103, 1085, 1110],
          [1030, 1074, 1072, 1085, 1110, 1074, 1085, 1110]])"
proof -
  have s: "split_fullname shevchenko_nominative =
      Inr (Some [1064, 1077, 1074, 1095, 1077, 1085, 1082, 1086],
           Some [1058, 1077, 1090, 1103, 1085, 1072],
           Some [1030, 1074, 1072, 1085, 1110, 1074, 1085, 1072])"
    by (simp add: shevchenko_nominative_def eval_defs)
  have p: "present_inflected (Some [1064, 1077, 1074, 1095, 1077, 1085, 1082, 1086])
      (Some [1058, 1077, 1090, 1103, 1085, 1072])
      (Some [1030, 1074, 1072, 1085, 1110, 1074, 1085, 1072])
    = map Inr [[1064, 1077, 1074, 1095, 1077, 1085, 1082, 1091], [1058, 1077, 1090, 1103, 1085, 1110],
          [1030, 1074, 1072, 1085, 1110, 1074, 1085, 1110]]"
    by (simp add: present_inflected_def eval_defs)
  from join_of_parts [OF s, of "[]"] obtain out where
    1: "map Inr [[1064, 1077, 1074, 1095, 1077, 1085, 1082, 1091], [1058, 1077, 1090, 1103, 1085, 1110],
          [1030, 1074, 1072, 1085, 1110, 1074, 1085, 1110]] = map (Inr :: ustr \<Rightarrow> py_error + ustr) out"
    and 2: "fst (to_dative_fullname shevchenko_nominative [])
          = Inr (if out = [] then shevchenko_nominative else py_join [SPACE] out)"
    unfolding p by metis
  have "out = [[1064, 1077, 1074, 1095, 1077, 1085, 1082, 1091], [1058, 1077, 1090, 1103, 1085, 1110],
          [1030, 1074, 1072, 1085, 1110, 1074, 1085, 1110]]"
    by (rule map_injective [OF 1 [symmetric]]) (simp add: inj_on_def)
  with 2 show ?thesis by simp
qed

section \<open>Applying the engine twice, and what a call does besides returning\<close>

lemma dative_final_token: "dative_final r \<Longrightarrow> token r"
  by (simp add: dative_final_def)

lemma first_name_idem:
  assumes "token w" and "dative_first_name w = Inr r"
  shows "token r \<and> dative_first_name r = Inr r"
  using first_name_result [OF assms] assms first_name_fixed dative_final_token by blast

lemma dative_surname_gender: "dative_surname w g = dative_surname w g'"
  by (simp add: dative_surname_eq [of "py_strip w" w])

lemma surname_idem:
  assumes "token w" and "dative_surname w g = Inr r"
  shows "token r \<and> dative_surname r g' = Inr r"
proof -
  from surname_result [OF assms] show ?thesis
  proof
    assume "r = w"
    with assms dative_surname_gender [of w g g'] show ?thesis by simp
  next
    assume "dative_final r"
    then show ?thesis by (simp add: surname_fixed dative_final_token)
  qed
qed

lemma patronymic_idem:
  assumes "token w" and "dative_patronymic w (guess_gender_from_patronymic (Some w)) = Inr r"
  shows "token r \<and> dative_patronymic r (guess_gender_from_patronymic (Some r)) = Inr r"
proof -
  from patronymic_result [OF assms] show ?thesis
  proof
    assume "r = w"
    with assms show ?thesis by simp
  next
    assume "dative_final r"
    then show ?thesis by (simp add: patronymic_fixed dative_final_token)
  qed
qed

lemma py_split_token: "token t \<Longrightarrow> py_split t = [t]"
  using py_split_token_append [of t "[]"] by (simp add: py_split_Nil)

lemma py_split_token_space: "token t \<Longrightarrow> py_split (t @ SPACE # s) = t # py_split s"
proof -
  assume t: "token t"
  have "blank [SPACE]" by (simp add: blank_def cp_isspace_def)
  then have "py_split ([SPACE] @ s) = py_split s" by (rule py_split_blank_append)
  moreover have "py_split (t @ SPACE # s) = t # py_split (SPACE # s)"
    by (rule py_split_token_append [OF t]) (simp add: cp_isspace_def)
  ultimately show ?thesis by simp
qed

lemma to_dative_value:
  assumes "split_fullname x = Inr (s, n, p)"
    and "inflect_parts s n p (guess_gender_from_patronymic p) = Inr out"
  shows "fst (to_dative_fullname x io) = Inr (if out \<noteq> [] then py_join [SPACE] out else x)"
  by (simp add: to_dative_fullname_def assms Let_def)

lemma to_dative_fullname_fixed:
  assumes "fst (to_dative_fullname x io1) = Inr y"
  shows "fst (to_dative_fullname y io2) = Inr y"
proof -
  have tok: "\<And>t. t \<in> set (py_split x) \<Longrightarrow> token t"
    by (rule py_split_tokens)
  consider (none) "py_split x = []"
    | (one) a where "py_split x = [a]"
    | (two) a b where "py_split x = [a, b]"
    | (three) a b c rest where "py_split x = a # b # c # rest"
    by (cases "py_split x" rule: list.exhaust; simp)
       (metis list.exhaust)
  then show ?thesis
  proof cases
    case none
    then have s: "split_fullname x = Inr (None, None, None)"
      by (simp add: split_fullname_eq)
    have i: "inflect_parts None None None (guess_gender_from_patronymic None) = Inr []"
      by (simp add: inflect_parts_def bind_e_def)
    from to_dative_value [OF s i] assms have "y = x" by simp
    with to_dative_value [OF s i] show ?thesis by simp
  next
    case (one a)
    then have s: "split_fullname x = Inr (None, Some a, None)"
      by (simp add: split_fullname_eq)
    have ta: "token a" using tok one by simp
    obtain a' where a': "dative_first_name a = Inr a'"
      using dative_first_name_total by blast
    have i: "inflect_parts None (Some a) None (guess_gender_from_patronymic None) = Inr [a']"
      using ta by (simp add: inflect_parts_def bind_e_def a' token_def)
    from to_dative_value [OF s i] assms have y: "y = a'" by simp
    note f = first_name_idem [OF ta a']
    have s2: "split_fullname y = Inr (None, Some a', None)"
      using f by (simp add: y split_fullname_eq py_split_token)
    have i2: "inflect_parts None (Some a') None (guess_gender_from_patronymic None) = Inr [a']"
      using f by (simp add: inflect_parts_def bind_e_def token_def)
    from to_dative_value [OF s2 i2] show ?thesis by (simp add: y)
  next
    case (two a b)
    then have s: "split_fullname x = Inr (Some a, Some b, None)"
      by (simp add: split_fullname_eq)
    have ta: "token a" and tb: "token b" using tok two by simp_all
    let ?g = "guess_gender_from_patronymic None"
    obtain a' where a': "dative_surname a ?g = Inr a'"
      using dative_surname_total by blast
    obtain b' where b': "dative_first_name b = Inr b'"
      using dative_first_name_total by blast
    have i: "inflect_parts (Some a) (Some b) None ?g = Inr [a', b']"
      using ta tb by (simp add: inflect_parts_def bind_e_def a' b' token_def)
    from to_dative_value [OF s i] assms have y: "y = a' @ SPACE # b'" by simp
    note fa = surname_idem [OF ta a', of ?g] and fb = first_name_idem [OF tb b']
    have "py_split y = [a', b']"
      using fa fb by (simp add: y py_split_token_space py_split_token)
    then have s2: "split_fullname y = Inr (Some a', Some b', None)"
      by (simp add: split_fullname_eq)
    have i2: "inflect_parts (Some a') (Some b') None ?g = Inr [a', b']"
      using fa fb by (simp add: inflect_parts_def bind_e_def token_def)
    from to_dative_value [OF s2 i2] show ?thesis by (simp add: y)
  next
    case (three a b c rest)
    then have s: "split_fullname x = Inr (Some a, Some b, Some c)"
      by (simp add: split_fullname_eq)
    have ta: "token a" and tb: "token b" and tc: "token c" using tok three by simp_all
    let ?g = "guess_gender_from_patronymic (Some c)"
    obtain a' where a': "dative_surname a ?g = Inr a'"
      using dative_surname_total by blast
    obtain b' where b': "dative_first_name b = Inr b'"
      using dative_first_name_total by blast
    obtain c' where c': "dative_patronymic c ?g = Inr c'"
      using dative_patronymic_total by blast
    have i: "inflect_parts (Some a) (Some b) (Some c) ?g = Inr [a', b', c']"
      using ta tb tc by (simp add: inflect_parts_def bind_e_def a' b' c' token_def)
    from to_dative_value [OF s i] assms have y: "y = a' @ SPACE # b' @ SPACE # c'" by simp
    let ?g' = "guess_gender_from_patronymic (Some c')"
    note fa = surname_idem [OF ta a', of ?g'] and fb = first_name_idem [OF tb b']
      and fc = patronymic_idem [OF tc c']
    have "py_split y = [a', b', c']"
      using fa fb fc by (simp add: y py_split_token_space py_split_token)
    then have s2: "split_fullname y = Inr (Some a', Some b', Some c')"
      by (simp add: split_fullname_eq)
    have i2: "inflect_parts (Some a') (Some b') (Some c') ?g' = Inr [a', b', c']"
      using fa fb fc by (simp add: inflect_parts_def bind_e_def token_def)
    from to_dative_value [OF s2 i2] show ?thesis by (simp add: y)
  qed
qed

text \<open>
  Claim C9 says that for some input the engine, applied to its own output, returns a
  different string. There is no such input: whatever the engine returns, it returns
  again when given it.
\<close>

theorem not_idempotent_counterexample:
  "\<not> (\<exists>x y z io1 io2.
        fst (to_dative_fullname x io1) = Inr y \<and> fst (to_dative_fullname y io2) = Inr z \<and> z \<noteq> y)"
proof
  assume "\<exists>x y z io1 io2.
        fst (to_dative_fullname x io1) = Inr y \<and> fst (to_dative_fullname y io2) = Inr z \<and> z \<noteq> y"
  then obtain x y z io1 io2 where 1: "fst (to_dative_fullname x io1) = Inr y"
    and 2: "fst (to_dative_fullname y io2) = Inr z" and 3: "z \<noteq> y"
    by blast
  from to_dative_fullname_fixed [OF 1, of io2] 2 3 show False by simp
qed

text \<open>
  Claim C9, amended. The engine is idempotent: for every input string, applying it to
  its own output returns that output unchanged. It has no step that detects an
  inflected form; every ending the rules write ends in one of the vowels \<open>cyr_i\<close>,
  \<open>cyr_yi\<close>, \<open>cyr_yu\<close>, \<open>cyr_u\<close>, for which no rule fires.
\<close>

theorem engine_idempotent:
  "fst (to_dative_fullname x io1) = Inr y \<Longrightarrow> fst (to_dative_fullname y io2) = Inr y"
  by (rule to_dative_fullname_fixed)

theorem engine_idempotent_witness:
  "fst (to_dative_fullname shevchenko_nominative []) = Inr shevchenko_dative
   \<and> fst (to_dative_fullname shevchenko_dative []) = Inr shevchenko_dative"
proof -
  have 1: "fst (to_dative_fullname shevchenko_nominative []) = Inr shevchenko_dative"
    unfolding shevchenko_nominative_def shevchenko_dative_def by (simp add: eval_defs)
  from engine_idempotent [OF 1, of "[]"] 1 show ?thesis by simp
qed



end
